theory Spec2Isabelle
  imports Complex_Main "HOL-Library.AList"
begin

section \<open>JavaScript values and errors\<close>

text \<open>
  The workflow helpers build and inspect untyped objects (\<open>lineItem: any\<close>), so a value
  is modelled as JavaScript has it: \<open>undefined\<close>, \<open>null\<close>, booleans, numbers, strings,
  arrays and plain objects (an object is the list of its own properties, in insertion
  order). A number is the real it denotes; \<open>NaN\<close> and the infinities are not modelled.
\<close>

datatype js =
    JUndefined
  | JNull
  | JBool bool
  | JNum real
  | JStr string
  | JArr "js list"
  | JObj "(string \<times> js) list"

datatype medusa_error_type = NOT_FOUND | INVALID_DATA

text \<open>
  What a function can throw: a \<open>MedusaError\<close> with its type and message, or the
  \<open>TypeError\<close> the runtime raises when a property is read from \<open>undefined\<close> or \<open>null\<close>.
\<close>

datatype error = MedusaError medusa_error_type string | TypeError

definition and_then :: "error + 'a \<Rightarrow> ('a \<Rightarrow> error + 'b) \<Rightarrow> error + 'b" where
  "and_then m f = (case m of Inl e \<Rightarrow> Inl e | Inr v \<Rightarrow> f v)"

text \<open>Truthiness, as \<open>if (v)\<close>, \<open>!v\<close> and \<open>a || b\<close> test it.\<close>

fun truthy :: "js \<Rightarrow> bool" where
  "truthy JUndefined = False"
| "truthy JNull = False"
| "truthy (JBool b) = b"
| "truthy (JNum n) = (n \<noteq> 0)"
| "truthy (JStr s) = (s \<noteq> [])"
| "truthy (JArr xs) = True"
| "truthy (JObj fs) = True"

fun nullish :: "js \<Rightarrow> bool" where
  "nullish JUndefined = True"
| "nullish JNull = True"
| "nullish v = False"

text \<open>\<open>a ?? b\<close> and \<open>a || b\<close>.\<close>

definition coalesce :: "js \<Rightarrow> js \<Rightarrow> js" where
  "coalesce a b = (if nullish a then b else a)"

definition js_or :: "js \<Rightarrow> js \<Rightarrow> js" where
  "js_or a b = (if truthy a then a else b)"

text \<open>
  \<open>v?.k\<close>: \<open>undefined\<close> when \<open>v\<close> is \<open>undefined\<close> or \<open>null\<close>, the property otherwise (a
  property an object does not have reads as \<open>undefined\<close>; the property names read here
  are never \<open>length\<close> or an index, so a string, a number, a boolean and an array have
  none of them).
\<close>

fun opt_member :: "js \<Rightarrow> string \<Rightarrow> js" where
  "opt_member (JObj fs) k = (case map_of fs k of None \<Rightarrow> JUndefined | Some v \<Rightarrow> v)"
| "opt_member v k = JUndefined"

text \<open>\<open>v.k\<close>: a \<open>TypeError\<close> on \<open>undefined\<close> and \<open>null\<close>.\<close>

definition member_of :: "js \<Rightarrow> string \<Rightarrow> error + js" where
  "member_of v k = (if nullish v then Inl TypeError else Inr (opt_member v k))"

text \<open>\<open>k in obj\<close> for an object given by its properties.\<close>

definition has_field :: "(string \<times> js) list \<Rightarrow> string \<Rightarrow> bool" where
  "has_field fs k = (k \<in> fst ` set fs)"

section \<open>Order line items: \<open>prepareCustomLineItemData\<close>\<close>

text \<open>
  \<open>prepareTaxLinesData\<close> and \<open>prepareAdjustmentsData\<close> are imported from the cart
  utilities and are parameters here; either may throw. The object literal has the three
  properties \<open>quantity\<close>, \<open>title\<close> and \<open>metadata\<close> (the lines for \<open>unit_price\<close> and
  \<open>is_tax_inclusive\<close> are commented out in the source); \<open>tax_lines\<close> and \<open>adjustments\<close>
  are assigned afterwards, each under its own \<open>if\<close>.
\<close>

definition prepareCustomLineItemData ::
  "(js \<Rightarrow> error + js) \<Rightarrow> (js \<Rightarrow> error + js) \<Rightarrow> js \<Rightarrow> error + js" where
  "prepareCustomLineItemData prepareTaxLinesData prepareAdjustmentsData data =
     and_then (member_of data ''item'') (\<lambda>item.
     and_then (member_of data ''taxLines'') (\<lambda>taxLines.
     and_then (member_of data ''adjustments'') (\<lambda>adjustments.
       let lineItem =
             [(''quantity'', opt_member item ''quantity''),
              (''title'', opt_member item ''title''),
              (''metadata'', coalesce (opt_member item ''metadata'') (JObj []))]
       in
       and_then
         (if truthy taxLines
          then and_then (prepareTaxLinesData taxLines)
                 (\<lambda>t. Inr (AList.update ''tax_lines'' t lineItem))
          else Inr lineItem) (\<lambda>lineItem.
       and_then
         (if truthy adjustments
          then and_then (prepareAdjustmentsData adjustments)
                 (\<lambda>a. Inr (AList.update ''adjustments'' a lineItem))
          else Inr lineItem) (\<lambda>lineItem.
       Inr (JObj lineItem))))))"

section \<open>The create-cart workflow\<close>

text \<open>
  The shapes the workflow body navigates, with the fields it reads. An optional field
  (\<open>email?: string\<close>) is an \<open>option\<close>, \<open>None\<close> for \<open>undefined\<close>. A field the code only
  tests for truthiness or hands on (\<open>shipping_address\<close>, \<open>unit_price\<close>) keeps its
  JavaScript value. Every other field of a record travels in the record's extension,
  which an object spread copies along.

  \<open>rg_id\<close>, \<open>rg_currency_code\<close> are the region's \<open>id\<close> and \<open>currency_code\<close>; \<open>cu_id\<close>,
  \<open>cu_email\<close> the customer's \<open>id\<close> and \<open>email\<close>; \<open>sc_id\<close> the sales channel's \<open>id\<close>;
  \<open>v_id\<close> the variant's \<open>id\<close>.
\<close>

record cart_item =
  variant_id :: "string option"
  unit_price :: js
  is_tax_inclusive :: js

record create_cart_input =
  region_id :: "string option"
  customer_id :: "string option"
  sales_channel_id :: "string option"
  email :: "string option"
  currency_code :: "string option"
  shipping_address :: js
  items :: "cart_item list option"

record country =
  iso_2 :: string

record region =
  rg_id :: string
  rg_currency_code :: string
  countries :: "country list"

record customer =
  cu_id :: string
  cu_email :: "string option"

record customer_data =
  customer :: "customer option"

record sales_channel =
  sc_id :: string

record variant =
  v_id :: string

record price_set =
  calculated_amount :: js
  is_calculated_price_tax_inclusive :: js

text \<open>A string that may be \<open>undefined\<close>, tested by \<open>if (s)\<close>: the empty string is falsy.\<close>

fun truthy_str :: "string option \<Rightarrow> bool" where
  "truthy_str None = False"
| "truthy_str (Some s) = (s \<noteq> [])"

text \<open>\<open>a ?? b\<close> on optional strings.\<close>

fun coalesce_str :: "string option \<Rightarrow> string option \<Rightarrow> string option" where
  "coalesce_str None b = b"
| "coalesce_str (Some a) b = Some a"

subsection \<open>The \<open>variantIds\<close> transform and the conditional \<open>variants\<close> query\<close>

text \<open>
  \<open>(data.input.items ?? []).map((i) => i.variant_id).filter(isDefined)\<close>; \<open>isDefined\<close>
  is imported from the framework and is a parameter.
\<close>

definition variantIds_transform ::
  "(string option \<Rightarrow> bool) \<Rightarrow> 'a create_cart_input_scheme \<Rightarrow> string option list" where
  "variantIds_transform isDefined inp =
     filter isDefined (map variant_id (case items inp of None \<Rightarrow> [] | Some xs \<Rightarrow> xs))"

text \<open>
  Modelled from the spec: the \<open>when(cond).then(fn)\<close> combinator of the workflows SDK,
  which is not among the sources. "\<open>fn\<close>'s nodes execute only if \<open>cond\<close> evaluates truthy
  against the resolved upstream values at run time; skipped branches leave dependent
  nodes' inputs undefined". A branch is given by the run of its nodes: their result and
  the steps they invoked, in order.
\<close>

definition when_then ::
  "bool \<Rightarrow> (unit \<Rightarrow> (error + 'a) \<times> string list) \<Rightarrow> (error + 'a option) \<times> string list" where
  "when_then cond fn =
     (if cond
      then (case fn () of (Inl e, invoked) \<Rightarrow> (Inl e, invoked)
                        | (Inr v, invoked) \<Rightarrow> (Inr (Some v), invoked))
      else (Inr None, []))"

text \<open>
  The \<open>variants\<close> node: \<open>when({ variantIds }, ({ variantIds }) => !!variantIds.length)\<close>
  guarding one \<open>useRemoteQueryStep\<close>, which receives the variant ids and the pricing
  context. The step is imported and is a parameter; the second component of the result
  lists the steps invoked.
\<close>

definition variants_node ::
  "(string option list \<Rightarrow> 'ctx \<Rightarrow> error + variant list) \<Rightarrow> string option list \<Rightarrow> 'ctx
     \<Rightarrow> (error + variant list option) \<times> string list" where
  "variants_node useRemoteQueryStep variantIds pricingContext =
     when_then (length variantIds \<noteq> 0)
       (\<lambda>_. (useRemoteQueryStep variantIds pricingContext, [''useRemoteQueryStep'']))"

subsection \<open>The \<open>cartInput\<close> transform\<close>

definition cartInput_transform ::
  "'a create_cart_input_scheme \<Rightarrow> region option \<Rightarrow> customer_data \<Rightarrow> sales_channel option
     \<Rightarrow> error + 'a create_cart_input_scheme" where
  "cartInput_transform inp region customerData salesChannel =
     (case region of
        None \<Rightarrow> Inl (MedusaError NOT_FOUND ''No regions found'')
      | Some rg \<Rightarrow>
          let data' = inp
                \<lparr> currency_code :=
                    coalesce_str (currency_code inp) (Some (rg_currency_code rg)),
                  region_id := Some (rg_id rg) \<rparr>;
              data' =
                (if truthy_str (map_option cu_id (customer customerData))
                 then data'
                   \<lparr> customer_id := map_option cu_id (customer customerData),
                     email := coalesce_str (email inp)
                                (Option.bind (customer customerData) cu_email) \<rparr>
                 else data');
              data' =
                (if truthy_str (map_option sc_id salesChannel)
                 then data' \<lparr> sales_channel_id := map_option sc_id salesChannel \<rparr>
                 else data');
              data' =
                (if \<not> truthy (shipping_address inp) \<and> length (countries rg) = 1
                 then data'
                   \<lparr> shipping_address :=
                       JObj [(''country_code'', JStr (iso_2 (countries rg ! 0)))] \<rparr>
                 else data')
          in Inr data')"

subsection \<open>The \<open>lineItems\<close> transform\<close>

text \<open>\<open>xs.map(f)\<close> where \<open>f\<close> may throw: the first throw ends the loop.\<close>

fun map_throwing :: "('a \<Rightarrow> error + 'b) \<Rightarrow> 'a list \<Rightarrow> error + 'b list" where
  "map_throwing f [] = Inr []"
| "map_throwing f (x # xs) =
     (case f x of
        Inl e \<Rightarrow> Inl e
      | Inr y \<Rightarrow> (case map_throwing f xs of Inl e \<Rightarrow> Inl e | Inr ys \<Rightarrow> Inr (y # ys)))"

text \<open>The argument object of \<open>prepareLineItemData\<close>.\<close>

record 'a prepare_line_item_input =
  pl_item :: "'a cart_item_scheme"
  pl_unitPrice :: js
  pl_isTaxInclusive :: js
  pl_variant :: "variant option"

text \<open>
  \<open>variants\<close> is the output of the conditional node, \<open>None\<close> when the branch was skipped.
  The callback reads \<open>data.variants.find\<close> first, for every item, with no test of
  \<open>data.variants\<close>. \<open>priceSets\<close> is the dictionary from variant id to price set that
  \<open>getVariantPriceSetsStep\<close> returns. \<open>isDefined\<close> and \<open>prepareLineItemData\<close> are
  imported and are parameters.
\<close>

definition lineItems_item ::
  "(js \<Rightarrow> bool) \<Rightarrow> ('a prepare_line_item_input \<Rightarrow> error + 'li) \<Rightarrow> (string \<rightharpoonup> price_set)
     \<Rightarrow> variant list option \<Rightarrow> 'a cart_item_scheme \<Rightarrow> error + 'li" where
  "lineItems_item isDefined prepareLineItemData priceSets variants item =
     (case variants of
        None \<Rightarrow> Inl TypeError
      | Some vs \<Rightarrow>
          let variant = find (\<lambda>v. Some (v_id v) = variant_id item) vs;
              variantPrice =
                (if truthy_str (variant_id item)
                 then Option.bind (variant_id item) priceSets else None);
              unitPrice =
                js_or (unit_price item)
                  (case variantPrice of None \<Rightarrow> JUndefined | Some p \<Rightarrow> calculated_amount p);
              isTaxInclusive =
                js_or (is_tax_inclusive item)
                  (case variantPrice of None \<Rightarrow> JUndefined
                   | Some p \<Rightarrow> is_calculated_price_tax_inclusive p)
          in if \<not> isDefined unitPrice
             then Inl (MedusaError INVALID_DATA ''Line item missing a unit price'')
             else prepareLineItemData
                    \<lparr> pl_item = item, pl_unitPrice = unitPrice,
                      pl_isTaxInclusive = isTaxInclusive, pl_variant = variant \<rparr>)"

definition lineItems_transform ::
  "(js \<Rightarrow> bool) \<Rightarrow> (unit prepare_line_item_input \<Rightarrow> error + 'li) \<Rightarrow> (string \<rightharpoonup> price_set)
     \<Rightarrow> 'b create_cart_input_scheme \<Rightarrow> variant list option \<Rightarrow> error + 'li list" where
  "lineItems_transform isDefined prepareLineItemData priceSets inp variants =
     map_throwing (lineItems_item isDefined prepareLineItemData priceSets variants)
       (case items inp of None \<Rightarrow> [] | Some xs \<Rightarrow> xs)"

section \<open>The price-list repository\<close>

text \<open>
  An entity manager is known by a reference; \<open>getActiveManager\<close> is inherited from the
  base repository, which is not among the sources, and is a parameter, as are the
  context a call gets when the caller passes none (\<open>context: Context = {}\<close>), the way
  the manager reads a caller's filter and paging options, and the entity
  \<open>manager.create\<close> builds from its data.
\<close>

type_synonym mref = nat
type_synonym oref = nat

datatype load_strategy = SELECT_IN | JOINED

text \<open>
  A price list and the data of an update: the \<open>id\<close> and the other properties. The
  options object of a query: its \<open>strategy\<close> and its other properties.
\<close>

record price_list =
  plid :: string
  attrs :: "(string \<times> js) list"

record update_dto =
  dto_id :: string
  dto_attrs :: "(string \<times> js) list"

record options_obj =
  strategy :: "load_strategy option"
  other_options :: "(string \<times> js) list"

text \<open>
  A filter: \<open>{}\<close>, \<open>{ id: { $in: ids } }\<close>, or one of the caller's. \<open>findOptions\<close> holds the
  filter and, when it has one, a reference to its options object.
\<close>

datatype 'w filter_query = MatchAll | IdIn "string list" | Custom 'w

record 'w find_options =
  fo_where :: "'w filter_query"
  fo_options :: "oref option"

datatype ('w, 'c) manager_call =
    MFind "'w filter_query" oref "options_obj option"
  | MFindAndCount "'w filter_query" oref "options_obj option"
  | MNativeDelete "string list"
  | MCreate 'c
  | MPersistAndFlush "price_list list"
  | MAssign price_list update_dto
  | MPersist "price_list list"

record ('ctx, 'w, 'c) orm_env =
  getActiveManager :: "'ctx \<Rightarrow> mref"
  empty_context :: 'ctx
  matches :: "'w \<Rightarrow> price_list \<Rightarrow> bool"
  paginate :: "(string \<times> js) list \<Rightarrow> price_list list \<Rightarrow> price_list list"
  instantiate :: "'c \<Rightarrow> price_list"

text \<open>
  The state the repository works on: the rows each manager sees, the options objects
  by reference (with the next free reference), and the calls made on managers so far,
  each with the manager it was made on. A query is logged with the reference of the
  options object it was given and that object's content at the time of the call.
\<close>

record ('w, 'c) world =
  rows :: "mref \<Rightarrow> price_list list"
  objs :: "oref \<rightharpoonup> options_obj"
  next_ref :: oref
  calls :: "(mref \<times> ('w, 'c) manager_call) list"

definition context_or_default :: "('ctx, 'w, 'c) orm_env \<Rightarrow> 'ctx option \<Rightarrow> 'ctx" where
  "context_or_default env context = (case context of None \<Rightarrow> empty_context env | Some c \<Rightarrow> c)"

text \<open>\<open>{}\<close>: a new, empty options object.\<close>

definition alloc :: "('w, 'c) world \<Rightarrow> oref \<times> ('w, 'c) world" where
  "alloc s =
     (next_ref s,
      s \<lparr> objs := (objs s)(next_ref s \<mapsto> \<lparr> strategy = None, other_options = [] \<rparr>),
          next_ref := Suc (next_ref s) \<rparr>)"

text \<open>\<open>Object.assign(target, { strategy: LoadStrategy.SELECT_IN })\<close>, on the object itself.\<close>

definition assign_strategy :: "oref \<Rightarrow> ('w, 'c) world \<Rightarrow> ('w, 'c) world" where
  "assign_strategy r s =
     s \<lparr> objs := (objs s)(r \<mapsto>
            (case objs s r of None \<Rightarrow> \<lparr> strategy = None, other_options = [] \<rparr> | Some ob \<Rightarrow> ob)
              \<lparr> strategy := Some SELECT_IN \<rparr>) \<rparr>"

fun selects :: "('ctx, 'w, 'c) orm_env \<Rightarrow> 'w filter_query \<Rightarrow> price_list \<Rightarrow> bool" where
  "selects env MatchAll p = True"
| "selects env (IdIn ids) p = (plid p \<in> set ids)"
| "selects env (Custom w) p = matches env w p"

definition paged ::
  "('ctx, 'w, 'c) orm_env \<Rightarrow> options_obj option \<Rightarrow> price_list list \<Rightarrow> price_list list" where
  "paged env ob ps =
     (case ob of
        None \<Rightarrow> ps
      | Some ob \<Rightarrow> if other_options ob = [] then ps else paginate env (other_options ob) ps)"

text \<open>The manager's methods: each logs the call on the manager it is made on.\<close>

definition manager_find ::
  "('ctx, 'w, 'c) orm_env \<Rightarrow> mref \<Rightarrow> 'w filter_query \<Rightarrow> oref \<Rightarrow> ('w, 'c) world
     \<Rightarrow> price_list list \<times> ('w, 'c) world" where
  "manager_find env m w r s =
     (paged env (objs s r) (filter (selects env w) (rows s m)),
      s \<lparr> calls := calls s @ [(m, MFind w r (objs s r))] \<rparr>)"

definition manager_findAndCount ::
  "('ctx, 'w, 'c) orm_env \<Rightarrow> mref \<Rightarrow> 'w filter_query \<Rightarrow> oref \<Rightarrow> ('w, 'c) world
     \<Rightarrow> (price_list list \<times> nat) \<times> ('w, 'c) world" where
  "manager_findAndCount env m w r s =
     ((paged env (objs s r) (filter (selects env w) (rows s m)),
       length (filter (selects env w) (rows s m))),
      s \<lparr> calls := calls s @ [(m, MFindAndCount w r (objs s r))] \<rparr>)"

definition manager_nativeDelete :: "mref \<Rightarrow> string list \<Rightarrow> ('w, 'c) world \<Rightarrow> ('w, 'c) world" where
  "manager_nativeDelete m ids s =
     s \<lparr> rows := (rows s)(m := filter (\<lambda>p. plid p \<notin> set ids) (rows s m)),
         calls := calls s @ [(m, MNativeDelete ids)] \<rparr>"

definition manager_create ::
  "('ctx, 'w, 'c) orm_env \<Rightarrow> mref \<Rightarrow> 'c \<Rightarrow> ('w, 'c) world \<Rightarrow> price_list \<times> ('w, 'c) world" where
  "manager_create env m d s =
     (instantiate env d, s \<lparr> calls := calls s @ [(m, MCreate d)] \<rparr>)"

definition manager_assign ::
  "mref \<Rightarrow> price_list \<Rightarrow> update_dto \<Rightarrow> ('w, 'c) world \<Rightarrow> price_list \<times> ('w, 'c) world" where
  "manager_assign m e d s =
     (e \<lparr> plid := dto_id d,
          attrs := fold (\<lambda>(k, v). AList.update k v) (dto_attrs d) (attrs e) \<rparr>,
      s \<lparr> calls := calls s @ [(m, MAssign e d)] \<rparr>)"

definition manager_persist :: "mref \<Rightarrow> price_list list \<Rightarrow> ('w, 'c) world \<Rightarrow> ('w, 'c) world" where
  "manager_persist m es s = s \<lparr> calls := calls s @ [(m, MPersist es)] \<rparr>"

text \<open>\<open>persistAndFlush\<close> is called and not awaited: the call is made, its flush is pending.\<close>

definition manager_persistAndFlush ::
  "mref \<Rightarrow> price_list list \<Rightarrow> ('w, 'c) world \<Rightarrow> ('w, 'c) world" where
  "manager_persistAndFlush m es s = s \<lparr> calls := calls s @ [(m, MPersistAndFlush es)] \<rparr>"

subsection \<open>The repository's methods\<close>

text \<open>
  \<open>find\<close>: \<open>findOptions_\<close> is a shallow copy of \<open>findOptions\<close>, so it holds the same
  reference to the options object; \<open>??=\<close> makes a new object only when there is none.
\<close>

definition repo_find ::
  "('ctx, 'w, 'c) orm_env \<Rightarrow> 'w find_options option \<Rightarrow> 'ctx option \<Rightarrow> ('w, 'c) world
     \<Rightarrow> price_list list \<times> ('w, 'c) world" where
  "repo_find env findOptions context s =
     (let manager = getActiveManager env (context_or_default env context);
          findOptions' =
            (case findOptions of
               None \<Rightarrow> \<lparr> fo_where = MatchAll, fo_options = None \<rparr>
             | Some fo \<Rightarrow> fo);
          (r, s1) = (case fo_options findOptions' of None \<Rightarrow> alloc s | Some r \<Rightarrow> (r, s));
          s2 = assign_strategy r s1
      in manager_find env manager (fo_where findOptions') r s2)"

definition repo_findAndCount ::
  "('ctx, 'w, 'c) orm_env \<Rightarrow> 'w find_options option \<Rightarrow> 'ctx option \<Rightarrow> ('w, 'c) world
     \<Rightarrow> (price_list list \<times> nat) \<times> ('w, 'c) world" where
  "repo_findAndCount env findOptions context s =
     (let manager = getActiveManager env (context_or_default env context);
          findOptions' =
            (case findOptions of
               None \<Rightarrow> \<lparr> fo_where = MatchAll, fo_options = None \<rparr>
             | Some fo \<Rightarrow> fo);
          (r, s1) = (case fo_options findOptions' of None \<Rightarrow> alloc s | Some r \<Rightarrow> (r, s));
          s2 = assign_strategy r s1
      in manager_findAndCount env manager (fo_where findOptions') r s2)"

definition repo_delete ::
  "('ctx, 'w, 'c) orm_env \<Rightarrow> string list \<Rightarrow> 'ctx option \<Rightarrow> ('w, 'c) world \<Rightarrow> ('w, 'c) world" where
  "repo_delete env ids context s =
     (let manager = getActiveManager env (context_or_default env context)
      in manager_nativeDelete manager ids s)"

fun create_each ::
  "('ctx, 'w, 'c) orm_env \<Rightarrow> mref \<Rightarrow> 'c list \<Rightarrow> ('w, 'c) world
     \<Rightarrow> price_list list \<times> ('w, 'c) world" where
  "create_each env m [] s = ([], s)"
| "create_each env m (d # ds) s =
     (let (e, s1) = manager_create env m d s;
          (es, s2) = create_each env m ds s1
      in (e # es, s2))"

definition repo_create ::
  "('ctx, 'w, 'c) orm_env \<Rightarrow> 'c list \<Rightarrow> 'ctx option \<Rightarrow> ('w, 'c) world
     \<Rightarrow> price_list list \<times> ('w, 'c) world" where
  "repo_create env data context s =
     (let manager = getActiveManager env (context_or_default env context);
          (priceLists, s1) = create_each env manager data s;
          s2 = manager_persistAndFlush manager priceLists s1
      in (priceLists, s2))"

definition not_found_message :: "string \<Rightarrow> string" where
  "not_found_message i = ''PriceList with id '' @ [CHR 0x22] @ i @ [CHR 0x22] @ '' not found''"

text \<open>
  The loop of \<open>update\<close> over \<open>data\<close>. The map holds the entities themselves, and
  \<open>manager.assign\<close> changes the entity it is given: the map is threaded through the
  loop, so that a second update of one id starts from the entity the first one left.
  The first id with no entity in the map throws, after the assigns before it.
\<close>

fun assign_each ::
  "mref \<Rightarrow> update_dto list \<Rightarrow> (string \<rightharpoonup> price_list) \<Rightarrow> ('w, 'c) world
     \<Rightarrow> error option \<times> (string \<rightharpoonup> price_list) \<times> ('w, 'c) world" where
  "assign_each m [] existingPriceListMap s = (None, existingPriceListMap, s)"
| "assign_each m (priceListData # ds) existingPriceListMap s =
     (case existingPriceListMap (dto_id priceListData) of
        None \<Rightarrow>
          (Some (MedusaError NOT_FOUND (not_found_message (dto_id priceListData))),
           existingPriceListMap, s)
      | Some existingPriceList \<Rightarrow>
          (let (e, s1) = manager_assign m existingPriceList priceListData s
           in assign_each m ds (existingPriceListMap(dto_id priceListData \<mapsto> e)) s1))"

definition repo_update ::
  "('ctx, 'w, 'c) orm_env \<Rightarrow> update_dto list \<Rightarrow> 'ctx option \<Rightarrow> ('w, 'c) world
     \<Rightarrow> (error + price_list list) \<times> ('w, 'c) world" where
  "repo_update env data context s =
     (let manager = getActiveManager env (context_or_default env context);
          priceListIds = map dto_id data;
          (existingPriceLists, s1) =
            repo_find env (Some \<lparr> fo_where = IdIn priceListIds, fo_options = None \<rparr>) context s;
          existingPriceListMap = map_of (rev (map (\<lambda>priceList. (plid priceList, priceList))
                                                existingPriceLists))
      in case assign_each manager data existingPriceListMap s1 of
           (Some e, _, s2) \<Rightarrow> (Inl e, s2)
         | (None, entities, s2) \<Rightarrow>
             (let moneyAmounts = map (\<lambda>priceListData. the (entities (dto_id priceListData))) data
              in (Inr moneyAmounts, manager_persist manager moneyAmounts s2)))"

text \<open>The five methods of the class, and a call of one of them.\<close>

datatype ('w, 'c) repo_method =
    Find "'w find_options option"
  | FindAndCount "'w find_options option"
  | Delete "string list"
  | Create "'c list"
  | Update "update_dto list"

fun perform ::
  "('ctx, 'w, 'c) orm_env \<Rightarrow> ('w, 'c) repo_method \<Rightarrow> 'ctx option \<Rightarrow> ('w, 'c) world
     \<Rightarrow> ('w, 'c) world" where
  "perform env (Find fo) context s = snd (repo_find env fo context s)"
| "perform env (FindAndCount fo) context s = snd (repo_findAndCount env fo context s)"
| "perform env (Delete ids) context s = repo_delete env ids context s"
| "perform env (Create data) context s = snd (repo_create env data context s)"
| "perform env (Update data) context s = snd (repo_update env data context s)"

text \<open>The calls that hand entities to the manager to be written.\<close>

fun is_persist :: "mref \<times> ('w, 'c) manager_call \<Rightarrow> bool" where
  "is_persist (m, MPersist es) = True"
| "is_persist (m, MPersistAndFlush es) = True"
| "is_persist (m, c) = False"

text \<open>The strategy a logged query ran with.\<close>

fun query_strategy :: "mref \<times> ('w, 'c) manager_call \<Rightarrow> load_strategy option" where
  "query_strategy (m, MFind w r ob) = Option.bind ob strategy"
| "query_strategy (m, MFindAndCount w r ob) = Option.bind ob strategy"
| "query_strategy (m, c) = None"

fun query_options :: "mref \<times> ('w, 'c) manager_call \<Rightarrow> oref option" where
  "query_options (m, MFind w r ob) = Some r"
| "query_options (m, MFindAndCount w r ob) = Some r"
| "query_options (m, c) = None"

section \<open>The step-success endpoint\<close>

text \<open>
  The OpenAPI description of \<open>POST /admin/workflows-executions/{workflow_id}/steps/success\<close>:
  the schema of the request body (its \<open>required\<close> list and its \<open>properties\<close>: a string,
  any value \<open>{}\<close>, or an \<open>enum\<close>) and the \<open>responses\<close>, each status code with the response
  component it refers to.
\<close>

datatype property_schema = StringProperty | AnyValue | EnumProperty "string list"

record object_schema =
  required :: "string list"
  properties :: "(string \<times> property_schema) list"

definition requestBody_schema :: object_schema where
  "requestBody_schema =
     \<lparr> required = [''transaction_id'', ''step_id'', ''response'', ''compensate_input'', ''action''],
       properties =
         [(''transaction_id'', StringProperty),
          (''step_id'', StringProperty),
          (''response'', AnyValue),
          (''compensate_input'', AnyValue),
          (''action'', EnumProperty [''invoke'', ''compensate''])] \<rparr>"

definition responses :: "(string \<times> string) list" where
  "responses =
     [(''400'', ''400_error''),
      (''401'', ''unauthorized''),
      (''404'', ''not_found_error''),
      (''409'', ''invalid_state_error''),
      (''422'', ''invalid_request_error''),
      (''500'', ''500_error'')]"

text \<open>
  What the schema asks of a body, as OpenAPI reads it: every name of \<open>required\<close> is a
  property of the body, and a property the body has conforms to its description.
\<close>

fun conforms :: "property_schema \<Rightarrow> js \<Rightarrow> bool" where
  "conforms StringProperty (JStr s) = True"
| "conforms StringProperty v = False"
| "conforms AnyValue v = True"
| "conforms (EnumProperty xs) (JStr s) = (s \<in> set xs)"
| "conforms (EnumProperty xs) v = False"

definition satisfies :: "object_schema \<Rightarrow> (string \<times> js) list \<Rightarrow> bool" where
  "satisfies sch body =
     (list_all (has_field body) (required sch)
      \<and> list_all (\<lambda>(k, p). case map_of body k of None \<Rightarrow> True | Some v \<Rightarrow> conforms p v)
           (properties sch))"

text \<open>
  The required fields as the specification words them: "\<open>transaction_id\<close>, \<open>step_id\<close>,
  \<open>response\<close> (invoke case) or \<open>compensate_input\<close> (compensate case), and \<open>action\<close>"; and the
  failure responses it lists: 400, 404, 409, 422, 500.
\<close>

definition claimed_required :: "string \<Rightarrow> string list" where
  "claimed_required action =
     [''transaction_id'', ''step_id'',
      if action = ''invoke'' then ''response'' else ''compensate_input'',
      ''action'']"

definition claimed_failure_responses :: "string list" where
  "claimed_failure_responses = [''400'', ''404'', ''409'', ''422'', ''500'']"

text \<open>
  Modelled from the spec: the execution log, which is not among the sources. It keeps,
  by (\<open>transaction_id\<close>, \<open>step_id\<close>), the step's status, one of "pending, success,
  failed, skipped, compensated", and its response. The state of an execution is its log
  and the steps whose downstream progression has been triggered, in order.
\<close>

datatype step_status = Pending | Success | Failed | Skipped | Compensated

record execution_state =
  step_log :: "string \<times> string \<rightharpoonup> step_status \<times> js"
  progressed :: "(string \<times> string) list"

datatype signal_result = Accepted | Rejected string

text \<open>
  Modelled from the spec: a terminal status. The spec names none; a step is taken to be
  in a terminal state once its status is no longer pending.
\<close>

definition terminal :: "step_status \<Rightarrow> bool" where
  "terminal status = (status \<noteq> Pending)"

text \<open>
  Modelled from the spec: the handler behind the endpoint, which is not among the
  sources, on a body that has passed validation. "404 unknown transaction/step, 409
  step already in a terminal state (conflict - rejects duplicate/late signals)"; the
  log is an "upsert by (\<open>transaction_id\<close>, \<open>step_id\<close>) ... unless already terminal, in
  which case later writes for the same key are rejected". An accepted signal records
  the success with its response and triggers the step's downstream progression.
\<close>

definition signal_step_success ::
  "string \<Rightarrow> string \<Rightarrow> js \<Rightarrow> execution_state \<Rightarrow> signal_result \<times> execution_state" where
  "signal_step_success transaction_id step_id response st =
     (case step_log st (transaction_id, step_id) of
        None \<Rightarrow> (Rejected ''404'', st)
      | Some (status, r) \<Rightarrow>
          if terminal status then (Rejected ''409'', st)
          else (Accepted,
                st \<lparr> step_log := (step_log st)((transaction_id, step_id) \<mapsto> (Success, response)),
                     progressed := progressed st @ [(transaction_id, step_id)] \<rparr>))"

section \<open>The execution plan of a workflow\<close>





















section \<open>The transaction engine\<close>

text \<open>
  Modelled from the spec: the transaction engine, which is not among the sources. A
  transaction is \<open>PENDING\<close>, \<open>INVOKING\<close>, \<open>DONE\<close>, \<open>COMPENSATING\<close>, \<open>REVERTED\<close> or \<open>FAILED\<close>. A step
  is registered "by unique name", is required or not, "declares a maximum retry
  count", names the steps whose output it reads, and has an invoke action, given by its
  outcome at each attempt. Its compensate action is optional: a step "carries an
  explicit compensate counterpart", given by its outcome, "or is declared
  non-compensable" (event emission is "an ordinary step with no compensate action"),
  or it has neither, the "missing compensate handler for a step that must be reversed".
\<close>

datatype tx_status = PENDING | INVOKING | DONE | COMPENSATING | REVERTED | FAILED

datatype compensation = Handler bool | NonCompensable | NoHandler

record step =
  step_name :: string
  is_required :: bool
  max_retries :: nat
  depends_on :: "string list"
  invoke :: "nat \<Rightarrow> bool"
  compensate :: compensation

text \<open>
  Modelled from the spec: what the engine does is kept as the list of its events. The
  engine is driven by signals: the turn of a step to run, or "an explicit abort".
  "Independent steps may execute concurrently": the signals come in any order, and the
  order in which steps succeed is the order of their signals, not that of their
  registration. The state is the transaction's status, each step's status (one of
  "pending, success, failed, skipped, compensated"), the steps that have succeeded, the
  last one first, and the events so far.
\<close>

datatype event =
    Entered tx_status
  | InvokeCalled string nat
  | InvokeSucceeded string
  | InvokeFailed string
  | CompensateCalled string
  | CompensateFailed string
  | CompensateUnavailable string

datatype signal = Run string | Abort

record engine =
  tx :: tx_status
  statuses :: "string \<Rightarrow> step_status"
  completed :: "string list"
  events :: "event list"

text \<open>
  Modelled from the spec: one step's invoke under its retry policy, "exhaustion is the
  trigger for entering \<open>COMPENSATING\<close>": the attempts \<open>k\<close>, \<open>k + 1\<close>, ... until one succeeds
  or the retries are used up.
\<close>

fun invoke_with_retries :: "step \<Rightarrow> nat \<Rightarrow> nat \<Rightarrow> bool \<times> event list" where
  "invoke_with_retries s k 0 = (invoke s k, [InvokeCalled (step_name s) k])"
| "invoke_with_retries s k (Suc r) =
     (if invoke s k then (True, [InvokeCalled (step_name s) k])
      else (let (ok, ev) = invoke_with_retries s (Suc k) r
            in (ok, InvokeCalled (step_name s) k # ev)))"

text \<open>
  Modelled from the spec: the step registered under a name, and when a step can run:
  "a step's invoke begins only once all its upstream dependencies have a resolved
  successful value", and a step is invoked once (the engine "must not double-invoke a
  step").
\<close>

definition find_step :: "step list \<Rightarrow> string \<Rightarrow> step option" where
  "find_step steps n = find (\<lambda>s. step_name s = n) steps"

definition ready :: "step list \<Rightarrow> engine \<Rightarrow> string \<Rightarrow> bool" where
  "ready steps e n =
     (case find_step steps n of
        None \<Rightarrow> False
      | Some s \<Rightarrow> statuses e n = Pending \<and> list_all (\<lambda>d. statuses e d = Success) (depends_on s))"

text \<open>
  Modelled from the spec: the compensation of one succeeded step. With a handler, one
  compensate call, whose failure "is recorded"; a step declared non-compensable is
  passed over; a step with no handler that must be reversed cannot be compensated.
\<close>

fun compensate_step :: "step option \<Rightarrow> string \<Rightarrow> event list" where
  "compensate_step None n = [CompensateUnavailable n]"
| "compensate_step (Some s) n =
     (case compensate s of
        Handler ok \<Rightarrow> CompensateCalled n # (if ok then [] else [CompensateFailed n])
      | NonCompensable \<Rightarrow> []
      | NoHandler \<Rightarrow> [CompensateUnavailable n])"

text \<open>
  Modelled from the spec: the sweep, "compensations run for all previously-succeeded
  steps in strict reverse completion order (last-succeeded-first); a compensation
  failure is recorded but does not block attempting remaining compensations
  (best-effort reverse sweep)".
\<close>

fun sweep :: "step list \<Rightarrow> string list \<Rightarrow> event list" where
  "sweep steps [] = []"
| "sweep steps (n # ns) = compensate_step (find_step steps n) n @ sweep steps ns"

text \<open>
  Modelled from the spec: the event of a compensation that could not be attempted, and
  the steps whose compensation succeeds.
\<close>

fun is_unavailable :: "event \<Rightarrow> bool" where
  "is_unavailable (CompensateUnavailable n) = True"
| "is_unavailable e = False"

definition compensated :: "step list \<Rightarrow> string \<Rightarrow> bool" where
  "compensated steps n = (map_option compensate (find_step steps n) = Some (Handler True))"

text \<open>
  Modelled from the spec: \<open>COMPENSATING\<close> and its two ends. "\<open>COMPENSATING\<rightarrow>REVERTED\<close>: all
  compensations attempted (success or exhausted)"; "\<open>COMPENSATING\<rightarrow>FAILED\<close>: reserved for
  cases compensation itself cannot be attempted (e.g., missing compensate handler for a
  step that must be reversed)". A step whose compensation succeeded becomes compensated.
\<close>

definition enter_compensating :: "step list \<Rightarrow> engine \<Rightarrow> engine" where
  "enter_compensating steps e =
     (let ev = sweep steps (completed e);
          final = (if list_ex is_unavailable ev then FAILED else REVERTED)
      in e \<lparr> tx := final,
             statuses := (\<lambda>n. if n \<in> set (completed e) \<and> compensated steps n
                               then Compensated else statuses e n),
             events := events e @ Entered COMPENSATING # ev @ [Entered final] \<rparr>)"

text \<open>Modelled from the spec: "\<open>INVOKING\<rightarrow>DONE\<close>: all required steps succeeded".\<close>

definition settle :: "step list \<Rightarrow> engine \<Rightarrow> engine" where
  "settle steps e =
     (if list_all (\<lambda>s. if is_required s then statuses e (step_name s) = Success else True) steps
      then e \<lparr> tx := DONE, events := events e @ [Entered DONE] \<rparr>
      else e)"

text \<open>
  Modelled from the spec: the turn of a step. Its success is recorded; its failure
  after the retries is recorded and, "\<open>INVOKING\<rightarrow>COMPENSATING\<close>: any required step's invoke
  fails after exhausting its retry policy", starts the compensation when the step is
  required.
\<close>

definition run_step :: "step list \<Rightarrow> engine \<Rightarrow> string \<Rightarrow> step \<Rightarrow> engine" where
  "run_step steps e n s =
     (let (ok, ev) = invoke_with_retries s 0 (max_retries s)
      in if ok
         then settle steps
                (e \<lparr> statuses := (statuses e)(n := Success),
                     completed := n # completed e,
                     events := events e @ ev @ [InvokeSucceeded n] \<rparr>)
         else (let e' = e \<lparr> statuses := (statuses e)(n := Failed),
                             events := events e @ ev @ [InvokeFailed n] \<rparr>
               in if is_required s then enter_compensating steps e' else settle steps e'))"

text \<open>
  Modelled from the spec: one signal. Outside \<open>INVOKING\<close> nothing is invoked any more; a
  step that is not ready does not run; an abort starts the compensation.
\<close>

definition on_signal :: "step list \<Rightarrow> engine \<Rightarrow> signal \<Rightarrow> engine" where
  "on_signal steps e sg =
     (if tx e \<noteq> INVOKING then e
      else (case sg of
              Abort \<Rightarrow> enter_compensating steps e
            | Run n \<Rightarrow>
                (if ready steps e n
                 then (case find_step steps n of None \<Rightarrow> e | Some s \<Rightarrow> run_step steps e n s)
                 else e)))"

text \<open>
  Modelled from the spec: a run, "\<open>PENDING\<rightarrow>INVOKING\<close>: on first execution attempt", then
  the signals in their order.
\<close>

definition start :: engine where
  "start =
     \<lparr> tx = INVOKING, statuses = (\<lambda>n. Pending), completed = [],
       events = [Entered PENDING, Entered INVOKING] \<rparr>"

definition run_transaction :: "step list \<Rightarrow> signal list \<Rightarrow> engine" where
  "run_transaction steps schedule = foldl (on_signal steps) start schedule"

text \<open>
  Read from a list of events, in order: the steps that got a compensate call, the steps
  whose invoke success was recorded, the steps that were invoked.
\<close>

fun compensate_calls :: "event list \<Rightarrow> string list" where
  "compensate_calls [] = []"
| "compensate_calls (CompensateCalled n # ev) = n # compensate_calls ev"
| "compensate_calls (e # ev) = compensate_calls ev"

fun successes :: "event list \<Rightarrow> string list" where
  "successes [] = []"
| "successes (InvokeSucceeded n # ev) = n # successes ev"
| "successes (e # ev) = successes ev"

fun invoked :: "event list \<Rightarrow> string list" where
  "invoked [] = []"
| "invoked (InvokeCalled n k # ev) = n # invoked ev"
| "invoked (e # ev) = invoked ev"

text \<open>
  A step's invoke succeeds at one of its attempts, the first or one of the retries; a
  step has a compensate handler.
\<close>

definition succeeds :: "step \<Rightarrow> bool" where
  "succeeds s = list_ex (invoke s) [0..<Suc (max_retries s)]"

definition has_handler :: "step list \<Rightarrow> string \<Rightarrow> bool" where
  "has_handler steps n =
     (case map_option compensate (find_step steps n) of Some (Handler ok) \<Rightarrow> True | _ \<Rightarrow> False)"

text \<open>
  What holds of the engine while it is \<open>INVOKING\<close>: no compensate call has been made; the
  succeeded steps are those whose success was recorded, the last one first, each once;
  a step that was invoked is no longer pending, and all the steps it depends on had
  succeeded.
\<close>

definition invoking_invariant :: "step list \<Rightarrow> engine \<Rightarrow> bool" where
  "invoking_invariant steps e \<longleftrightarrow>
     compensate_calls (events e) = []
     \<and> completed e = rev (successes (events e))
     \<and> distinct (completed e)
     \<and> (\<forall>m\<in>set (completed e). statuses e m = Success \<and> m \<in> set (invoked (events e)))
     \<and> (\<forall>d\<in>set (invoked (events e)).
           statuses e d \<noteq> Pending
           \<and> (\<forall>t. find_step steps d = Some t \<longrightarrow>
                 (\<forall>x\<in>set (depends_on t). statuses e x = Success)))"

section \<open>Example inputs\<close>

text \<open>
  A repository whose own manager is 1, with contexts that may carry a transaction
  manager or a manager; a state in which manager 7 sees one price list and the caller
  holds one options object; an update of that price list and of one that does not exist.
\<close>

record tx_context =
  transactionManager :: "mref option"
  manager :: "mref option"

definition demo_env :: "(tx_context, unit, price_list) orm_env" where
  "demo_env =
     \<lparr> getActiveManager =
         (\<lambda>c. case transactionManager c of Some m \<Rightarrow> m
               | None \<Rightarrow> (case manager c of Some m \<Rightarrow> m | None \<Rightarrow> 1)),
       empty_context = \<lparr> transactionManager = None, manager = None \<rparr>,
       matches = (\<lambda>w p. True),
       paginate = (\<lambda>opts ps. ps),
       instantiate = (\<lambda>d. d) \<rparr>"

definition demo_world :: "(unit, price_list) world" where
  "demo_world =
     \<lparr> rows = (\<lambda>m. if m = 7 then [\<lparr> plid = ''pl_1'', attrs = [] \<rparr>] else []),
       objs = [0 \<mapsto> \<lparr> strategy = Some JOINED, other_options = [(''limit'', JNum 10)] \<rparr>],
       next_ref = 1,
       calls = [] \<rparr>"

definition demo_context :: tx_context where
  "demo_context = \<lparr> transactionManager = Some 7, manager = None \<rparr>"

definition demo_update :: "update_dto list" where
  "demo_update =
     [\<lparr> dto_id = ''pl_1'', dto_attrs = [(''title'', JStr ''Sale'')] \<rparr>,
      \<lparr> dto_id = ''pl_2'', dto_attrs = [] \<rparr>]"


text \<open>A cart input with one custom item: a price of its own and no variant.\<close>

definition custom_item_input :: create_cart_input where
  "custom_item_input =
     \<lparr> region_id = None, customer_id = None, sales_channel_id = None, email = None,
       currency_code = None, shipping_address = JUndefined,
       items = Some [\<lparr> variant_id = None, unit_price = JNum 1000,
                       is_tax_inclusive = JUndefined \<rparr>] \<rparr>"

text \<open>An execution log with one pending step.\<close>

definition demo_execution :: execution_state where
  "demo_execution =
     \<lparr> step_log = [(''tx_1'', ''step_1'') \<mapsto> (Pending, JUndefined)], progressed = [] \<rparr>"

text \<open>
  A transaction of six steps: \<open>reserve\<close>, whose compensation fails; \<open>pack\<close>, which
  succeeds at its retry; \<open>notify\<close>, not required, which fails; \<open>emit-event\<close>, declared
  non-compensable; \<open>charge\<close>, which fails at every attempt; \<open>ship\<close>, which depends on
  \<open>charge\<close>. In the schedule \<open>pack\<close> completes before \<open>reserve\<close>, and \<open>ship\<close> is tried before
  it is ready.
\<close>

definition demo_charge :: step where
  "demo_charge =
     \<lparr> step_name = ''charge'', is_required = True, max_retries = 2,
       depends_on = [''reserve'', ''pack''], invoke = (\<lambda>k. False), compensate = Handler True \<rparr>"

definition demo_ship :: step where
  "demo_ship =
     \<lparr> step_name = ''ship'', is_required = True, max_retries = 0,
       depends_on = [''charge''], invoke = (\<lambda>k. True), compensate = Handler True \<rparr>"

definition demo_steps :: "step list" where
  "demo_steps =
     [\<lparr> step_name = ''reserve'', is_required = True, max_retries = 0,
        depends_on = [], invoke = (\<lambda>k. True), compensate = Handler False \<rparr>,
      \<lparr> step_name = ''pack'', is_required = True, max_retries = 1,
        depends_on = [], invoke = (\<lambda>k. 1 \<le> k), compensate = Handler True \<rparr>,
      \<lparr> step_name = ''notify'', is_required = False, max_retries = 1,
        depends_on = [], invoke = (\<lambda>k. False), compensate = Handler True \<rparr>,
      \<lparr> step_name = ''emit-event'', is_required = True, max_retries = 0,
        depends_on = [''reserve''], invoke = (\<lambda>k. True), compensate = NonCompensable \<rparr>,
      demo_charge,
      demo_ship]"

definition demo_schedule :: "signal list" where
  "demo_schedule =
     [Run ''pack'', Run ''ship'', Run ''reserve'', Run ''notify'', Run ''emit-event'']"

section \<open>Properties\<close>

lemma and_then_Inr_iff:
  "and_then m f = Inr r \<longleftrightarrow> (\<exists>v. m = Inr v \<and> f v = Inr r)"
  by (cases m) (simp_all add: and_then_def)

lemma has_field_update:
  "has_field (AList.update k v fs) k' \<longleftrightarrow> k' = k \<or> has_field fs k'"
  by (auto simp: has_field_def dom_update dom_map_of_conv_image_fst [symmetric]
        update_conv')

text \<open>
  C9. Whenever \<open>prepareCustomLineItemData\<close> returns, it returns an object with no
  \<open>unit_price\<close> and no \<open>is_tax_inclusive\<close> property; its \<open>metadata\<close> is the item's
  metadata, or \<open>{}\<close> when that is \<open>undefined\<close> or \<open>null\<close>; it has a \<open>tax_lines\<close> property
  exactly when the \<open>taxLines\<close> argument is truthy and an \<open>adjustments\<close> property exactly
  when the \<open>adjustments\<close> argument is truthy.
\<close>

theorem prepareCustomLineItemData_fields:
  assumes "prepareCustomLineItemData ptl padj data = Inr r"
  shows "\<exists>fs. r = JObj fs
           \<and> \<not> has_field fs ''unit_price''
           \<and> \<not> has_field fs ''is_tax_inclusive''
           \<and> map_of fs ''metadata''
               = Some (coalesce (opt_member (opt_member data ''item'') ''metadata'') (JObj []))
           \<and> (has_field fs ''tax_lines'' \<longleftrightarrow> truthy (opt_member data ''taxLines''))
           \<and> (has_field fs ''adjustments'' \<longleftrightarrow> truthy (opt_member data ''adjustments''))"
  using assms
  by (auto simp: prepareCustomLineItemData_def Let_def and_then_Inr_iff member_of_def
        has_field_update update_conv' has_field_def split: if_splits)

theorem prepareCustomLineItemData_fields_witness:
  "prepareCustomLineItemData Inr Inr
      (JObj [(''item'', JObj [(''quantity'', JNum 2), (''title'', JStr ''Gift wrap'')]),
             (''taxLines'', JArr [])])
    = Inr (JObj [(''quantity'', JNum 2), (''title'', JStr ''Gift wrap''),
                 (''metadata'', JObj []), (''tax_lines'', JArr [])])
   \<and> (\<exists>fs. JObj [(''quantity'', JNum 2), (''title'', JStr ''Gift wrap''),
                 (''metadata'', JObj []), (''tax_lines'', JArr [])] = JObj fs
         \<and> \<not> has_field fs ''unit_price''
         \<and> has_field fs ''tax_lines''
         \<and> \<not> has_field fs ''adjustments'')"
proof -
  have run: "prepareCustomLineItemData Inr Inr
      (JObj [(''item'', JObj [(''quantity'', JNum 2), (''title'', JStr ''Gift wrap'')]),
             (''taxLines'', JArr [])])
    = Inr (JObj [(''quantity'', JNum 2), (''title'', JStr ''Gift wrap''),
                 (''metadata'', JObj []), (''tax_lines'', JArr [])])"
    by (simp add: prepareCustomLineItemData_def and_then_def member_of_def coalesce_def)
  from prepareCustomLineItemData_fields [OF run] show ?thesis
    using run by simp
qed

text \<open>
  C10. Given a resolved region, the \<open>cartInput\<close> transform returns a cart whose
  \<open>currency_code\<close> is the input's when defined and the region's otherwise; whose
  \<open>customer_id\<close> and \<open>email\<close> are the input's own unless the resolved customer has a
  (non-empty) id, in which case \<open>customer_id\<close> is that id and \<open>email\<close> is the input's
  email when defined and the customer's otherwise; and whose \<open>shipping_address\<close> is the
  address holding the single country's \<open>iso_2\<close> as \<open>country_code\<close> when the input has no
  shipping address and the region has exactly one country, and the input's
  \<open>shipping_address\<close> as given otherwise.
\<close>

theorem cartInput_transform_fields:
  "\<exists>c. cartInput_transform inp (Some rg) cd sc = Inr c
     \<and> currency_code c
         = (case currency_code inp of Some x \<Rightarrow> Some x | None \<Rightarrow> Some (rg_currency_code rg))
     \<and> customer_id c
         = (if truthy_str (map_option cu_id (customer cd))
            then map_option cu_id (customer cd) else customer_id inp)
     \<and> email c
         = (if truthy_str (map_option cu_id (customer cd))
            then (case email inp of Some e \<Rightarrow> Some e
                  | None \<Rightarrow> Option.bind (customer cd) cu_email)
            else email inp)
     \<and> shipping_address c
         = (if \<not> truthy (shipping_address inp) \<and> length (countries rg) = 1
            then JObj [(''country_code'', JStr (iso_2 (hd (countries rg))))]
            else shipping_address inp)"
proof -
  have hd0: "length (countries rg) = 1 \<Longrightarrow> countries rg ! 0 = hd (countries rg)"
    by (cases "countries rg") simp_all
  have cs: "\<And>a b. coalesce_str a b = (case a of Some x \<Rightarrow> Some x | None \<Rightarrow> b)"
    by (simp split: option.splits)
  show ?thesis
    by (simp add: cartInput_transform_def Let_def cs hd0 split: option.splits)
qed

lemma create_each_calls:
  "\<exists>cs. calls (snd (create_each env m ds s)) = calls s @ cs \<and> fst ` set cs \<subseteq> {m}"
proof (induction ds arbitrary: s)
  case Nil
  then show ?case by simp
next
  case (Cons d ds)
  obtain cs where cs: "calls (snd (create_each env m ds (snd (manager_create env m d s))))
      = calls (snd (manager_create env m d s)) @ cs" "fst ` set cs \<subseteq> {m}"
    using Cons.IH by blast
  show ?case
    using cs by (auto simp: manager_create_def split: prod.splits)
qed

lemma assign_each_calls:
  "\<exists>cs. calls (snd (snd (assign_each m ds mp s))) = calls s @ cs \<and> fst ` set cs \<subseteq> {m}
        \<and> filter is_persist cs = []"
proof (induction ds arbitrary: mp s)
  case Nil
  then show ?case by simp
next
  case (Cons d ds)
  show ?case
  proof (cases "mp (dto_id d)")
    case None
    then show ?thesis by simp
  next
    case (Some e)
    let ?s1 = "snd (manager_assign m e d s)"
    let ?mp = "mp(dto_id d \<mapsto> fst (manager_assign m e d s))"
    obtain cs where cs: "calls (snd (snd (assign_each m ds ?mp ?s1))) = calls ?s1 @ cs"
        "fst ` set cs \<subseteq> {m}" "filter is_persist cs = []"
      using Cons.IH by blast
    show ?thesis
      using cs Some by (auto simp: manager_assign_def split: prod.splits)
  qed
qed

lemma repo_find_calls:
  "\<exists>c. calls (snd (repo_find env fo ctx s)) = calls s @ [c]
       \<and> fst c = getActiveManager env (context_or_default env ctx)
       \<and> query_strategy c = Some SELECT_IN \<and> \<not> is_persist c"
  by (auto simp: repo_find_def manager_find_def assign_strategy_def alloc_def Let_def
        split: option.splits prod.splits)

lemma repo_findAndCount_calls:
  "\<exists>c. calls (snd (repo_findAndCount env fo ctx s)) = calls s @ [c]
       \<and> fst c = getActiveManager env (context_or_default env ctx)
       \<and> query_strategy c = Some SELECT_IN \<and> \<not> is_persist c"
  by (auto simp: repo_findAndCount_def manager_findAndCount_def assign_strategy_def alloc_def Let_def
        split: option.splits prod.splits)

text \<open>
  C6. The repository has the five methods \<open>find\<close>, \<open>findAndCount\<close>, \<open>delete\<close>, \<open>create\<close>
  and \<open>update\<close>. Whatever the method, its arguments, the context and the state, the call
  makes at least one call on a manager, and every manager call it makes is made on
  \<open>getActiveManager(context)\<close>, the context being the one passed in or \<open>{}\<close> when none is.
\<close>

theorem repository_methods_use_active_manager:
  "\<exists>cs. calls (perform env meth ctx s) = calls s @ cs
        \<and> fst ` set cs = {getActiveManager env (context_or_default env ctx)}"
proof (cases meth)
  case (Find fo)
  then show ?thesis using repo_find_calls [of env fo ctx s] by auto
next
  case (FindAndCount fo)
  then show ?thesis using repo_findAndCount_calls [of env fo ctx s] by auto
next
  case (Delete ids)
  then show ?thesis by (simp add: repo_delete_def manager_nativeDelete_def Let_def)
next
  case (Create data)
  let ?m = "getActiveManager env (context_or_default env ctx)"
  obtain cs where "calls (snd (create_each env ?m data s)) = calls s @ cs" "fst ` set cs \<subseteq> {?m}"
    using create_each_calls by blast
  then show ?thesis using Create
    by (auto simp: repo_create_def manager_persistAndFlush_def Let_def split: prod.splits)
next
  case (Update data)
  let ?m = "getActiveManager env (context_or_default env ctx)"
  let ?f = "repo_find env (Some \<lparr> fo_where = IdIn (map dto_id data), fo_options = None \<rparr>) ctx s"
  let ?mp = "map_of (rev (map (\<lambda>priceList. (plid priceList, priceList)) (fst ?f)))"
  obtain c where c: "calls (snd ?f) = calls s @ [c]" "fst c = ?m"
    using repo_find_calls by blast
  obtain cs where cs: "calls (snd (snd (assign_each ?m data ?mp (snd ?f)))) = calls (snd ?f) @ cs"
     "fst ` set cs \<subseteq> {?m}"
    using assign_each_calls by blast
  show ?thesis using Update c cs
    by (auto simp: repo_update_def manager_persist_def Let_def split: prod.splits option.splits)
qed


lemma assign_each_missing:
  assumes "d \<in> set ds" and "dto_id d \<notin> dom mp"
  shows "\<exists>m. m \<in> set ds \<and> dto_id m \<notin> dom mp
           \<and> fst (assign_each mg ds mp s)
               = Some (MedusaError NOT_FOUND (not_found_message (dto_id m)))"
  using assms
proof (induction ds arbitrary: mp s)
  case Nil
  then show ?case by simp
next
  case (Cons x xs)
  show ?case
  proof (cases "mp (dto_id x)")
    case None
    then show ?thesis by (auto intro: exI [of _ x])
  next
    case (Some e)
    let ?mp = "mp(dto_id x \<mapsto> fst (manager_assign mg e x s))"
    have same: "dom ?mp = dom mp" using Some by auto
    have "d \<noteq> x" using Some Cons.prems(2) by auto
    then have "d \<in> set xs" using Cons.prems(1) by simp
    moreover have "dto_id d \<notin> dom ?mp" using same Cons.prems(2) by simp
    ultimately obtain m where m: "m \<in> set xs" "dto_id m \<notin> dom ?mp"
      "fst (assign_each mg xs ?mp (snd (manager_assign mg e x s)))
         = Some (MedusaError NOT_FOUND (not_found_message (dto_id m)))"
      using Cons.IH by blast
    show ?thesis
      using m same Some by (auto simp: split: prod.splits intro!: exI [of _ m])
  qed
qed

lemma repo_find_IdIn:
  "fst (repo_find env (Some \<lparr> fo_where = IdIn ids, fo_options = None \<rparr>) ctx s)
     = filter (\<lambda>p. plid p \<in> set ids)
         (rows s (getActiveManager env (context_or_default env ctx)))"
  by (simp add: repo_find_def manager_find_def assign_strategy_def alloc_def Let_def paged_def
        cong: filter_cong)

lemma dom_entity_map:
  "dom (map_of (rev (map (\<lambda>p. (plid p, p)) ps))) = plid ` set ps"
  by (simp add: dom_map_of_conv_image_fst image_image)

text \<open>
  C7. When some id in the data of \<open>update\<close> has no price list among the rows the active
  manager sees, \<open>update\<close> throws \<open>NOT_FOUND\<close> with the message
  \<open>PriceList with id "<id>" not found\<close> for an id of the data that has no price list, and
  it makes no \<open>persist\<close> (nor \<open>persistAndFlush\<close>) call: the persist calls logged after
  the call are those logged before.
\<close>

theorem update_missing_id_not_found:
  assumes "d \<in> set data"
    and "dto_id d \<notin> plid ` set (rows s (getActiveManager env (context_or_default env ctx)))"
  shows "(\<exists>m. m \<in> set data
            \<and> dto_id m \<notin> plid ` set (rows s (getActiveManager env (context_or_default env ctx)))
            \<and> fst (repo_update env data ctx s)
                = Inl (MedusaError NOT_FOUND (not_found_message (dto_id m))))
         \<and> filter is_persist (calls (snd (repo_update env data ctx s)))
             = filter is_persist (calls s)"
proof -
  let ?m = "getActiveManager env (context_or_default env ctx)"
  let ?f = "repo_find env (Some \<lparr> fo_where = IdIn (map dto_id data), fo_options = None \<rparr>) ctx s"
  let ?mp = "map_of (rev (map (\<lambda>priceList. (plid priceList, priceList)) (fst ?f)))"
  let ?a = "assign_each ?m data ?mp (snd ?f)"
  have dom: "dom ?mp = {i \<in> plid ` set (rows s ?m). i \<in> dto_id ` set data}"
    unfolding dom_entity_map repo_find_IdIn by auto
  have inrows: "\<And>x. x \<in> set data \<Longrightarrow> dto_id x \<notin> dom ?mp \<longleftrightarrow> dto_id x \<notin> plid ` set (rows s ?m)"
    unfolding dom by auto
  have "dto_id d \<notin> dom ?mp" using inrows assms by blast
  then obtain m where m: "m \<in> set data" "dto_id m \<notin> dom ?mp"
    "fst ?a = Some (MedusaError NOT_FOUND (not_found_message (dto_id m)))"
    using assign_each_missing [OF assms(1)] by blast
  obtain c where c: "calls (snd ?f) = calls s @ [c]" "\<not> is_persist c"
    using repo_find_calls by blast
  obtain cs where cs: "calls (snd (snd ?a)) = calls (snd ?f) @ cs" "filter is_persist cs = []"
    using assign_each_calls by blast
  obtain e mp' s2 where a: "?a = (e, mp', s2)"
    by (cases ?a)
  have res: "repo_update env data ctx s
      = (Inl (MedusaError NOT_FOUND (not_found_message (dto_id m))), snd (snd ?a))"
    using m(3) a by (simp add: repo_update_def Let_def case_prod_beta)
  show ?thesis
    using res m(1) m(2) inrows c cs by auto
qed

text \<open>
  C8. \<open>find\<close> and \<open>findAndCount\<close> each make exactly one manager call, a query that runs
  with \<open>LoadStrategy.SELECT_IN\<close>, whatever \<open>findOptions\<close> and the options object held
  before. When the caller's \<open>findOptions\<close> has an options object, the query is given that
  very object, and after the call the object has \<open>strategy = SELECT_IN\<close> with its other
  properties unchanged.
\<close>

theorem find_runs_select_in:
  "(\<exists>c. calls (snd (repo_find env fo ctx s)) = calls s @ [c]
        \<and> query_strategy c = Some SELECT_IN
        \<and> (\<forall>f r ob. fo = Some f \<longrightarrow> fo_options f = Some r \<longrightarrow> objs s r = Some ob \<longrightarrow>
              query_options c = Some r
              \<and> objs (snd (repo_find env fo ctx s)) r = Some (ob \<lparr> strategy := Some SELECT_IN \<rparr>)))
   \<and> (\<exists>c. calls (snd (repo_findAndCount env fo ctx s)) = calls s @ [c]
        \<and> query_strategy c = Some SELECT_IN
        \<and> (\<forall>f r ob. fo = Some f \<longrightarrow> fo_options f = Some r \<longrightarrow> objs s r = Some ob \<longrightarrow>
              query_options c = Some r
              \<and> objs (snd (repo_findAndCount env fo ctx s)) r
                  = Some (ob \<lparr> strategy := Some SELECT_IN \<rparr>)))"
  by (auto simp: repo_find_def manager_find_def repo_findAndCount_def manager_findAndCount_def
        assign_strategy_def alloc_def Let_def split: option.splits prod.splits)


theorem repository_methods_use_active_manager_witness:
  "fst ` set (calls (perform demo_env (Update demo_update) (Some demo_context) demo_world)) = {7}"
proof -
  have m: "getActiveManager demo_env (context_or_default demo_env (Some demo_context)) = 7"
    by (simp add: demo_env_def demo_context_def context_or_default_def)
  have c: "calls demo_world = []"
    by (simp add: demo_world_def)
  from repository_methods_use_active_manager
    [of demo_env "Update demo_update" "Some demo_context" demo_world]
  show ?thesis unfolding m c by auto
qed

theorem update_missing_id_not_found_witness:
  "fst (repo_update demo_env demo_update (Some demo_context) demo_world)
     = Inl (MedusaError NOT_FOUND (not_found_message ''pl_2''))
   \<and> filter is_persist (calls (snd (repo_update demo_env demo_update (Some demo_context) demo_world)))
       = []"
proof -
  have m: "getActiveManager demo_env (context_or_default demo_env (Some demo_context)) = 7"
    by (simp add: demo_env_def demo_context_def context_or_default_def)
  have r: "plid ` set (rows demo_world 7) = {''pl_1''}"
    by (simp add: demo_world_def)
  have c: "calls demo_world = []"
    by (simp add: demo_world_def)
  have d: "\<lparr> dto_id = ''pl_2'', dto_attrs = [] \<rparr> \<in> set demo_update"
    by (simp add: demo_update_def)
  have missing: "dto_id \<lparr> dto_id = ''pl_2'', dto_attrs = [] \<rparr>
      \<notin> plid ` set (rows demo_world
            (getActiveManager demo_env (context_or_default demo_env (Some demo_context))))"
    unfolding m r by simp
  have ids: "\<And>x. x \<in> set demo_update \<Longrightarrow> dto_id x \<noteq> ''pl_1'' \<Longrightarrow> dto_id x = ''pl_2''"
    by (auto simp: demo_update_def)
  from update_missing_id_not_found [OF d missing]
  show ?thesis unfolding m r c using ids by auto
qed

theorem find_runs_select_in_witness:
  "objs (snd (repo_find demo_env (Some \<lparr> fo_where = MatchAll, fo_options = Some 0 \<rparr>)
               (Some demo_context) demo_world)) 0
     = Some \<lparr> strategy = Some SELECT_IN, other_options = [(''limit'', JNum 10)] \<rparr>
   \<and> objs (snd (repo_findAndCount demo_env (Some \<lparr> fo_where = MatchAll, fo_options = Some 0 \<rparr>)
               (Some demo_context) demo_world)) 0
     = Some \<lparr> strategy = Some SELECT_IN, other_options = [(''limit'', JNum 10)] \<rparr>"
proof -
  have ob: "objs demo_world 0
      = Some \<lparr> strategy = Some JOINED, other_options = [(''limit'', JNum 10)] \<rparr>"
    by (simp add: demo_world_def)
  have fo: "fo_options \<lparr> fo_where = MatchAll, fo_options = Some 0 \<rparr> = Some 0"
    by simp
  from find_runs_select_in
    [of demo_env "Some \<lparr> fo_where = MatchAll, fo_options = Some 0 \<rparr>" "Some demo_context" demo_world]
  show ?thesis using ob fo by fastforce
qed

lemma variants_node_skipped:
  "variants_node useRemoteQueryStep [] pricingContext = (Inr None, [])"
  by (simp add: variants_node_def when_then_def)

lemma lineItems_transform_no_items:
  "items inp = None \<or> items inp = Some [] \<Longrightarrow>
     lineItems_transform isDefined prepareLineItemData priceSets inp variants = Inr []"
  by (auto simp: lineItems_transform_def)

text \<open>
  C4. For a cart input whose only item has no variant, the \<open>variantIds\<close> transform yields
  no ids, the \<open>variants\<close> node invokes no step and its output is \<open>undefined\<close>, and the
  \<open>lineItems\<close> transform, given that output, throws the \<open>TypeError\<close> of reading \<open>find\<close>
  from \<open>undefined\<close>.
\<close>

theorem lineItems_custom_item_type_error:
  "variantIds_transform (\<lambda>v. v \<noteq> None) custom_item_input = []
   \<and> variants_node (\<lambda>ids ctx. Inr []) (variantIds_transform (\<lambda>v. v \<noteq> None) custom_item_input) ()
       = (Inr None, [])
   \<and> lineItems_transform (\<lambda>v. v \<noteq> JUndefined) Inr Map.empty custom_item_input None
       = Inl TypeError"
  by (simp add: variantIds_transform_def custom_item_input_def variants_node_def when_then_def
        lineItems_transform_def lineItems_item_def)



lemma has_field_map_of: "has_field fs k \<longleftrightarrow> map_of fs k \<noteq> None"
  by (simp add: has_field_def map_of_eq_None_iff)

lemma conforms_StringProperty: "conforms StringProperty v \<longleftrightarrow> (\<exists>s. v = JStr s)"
  by (cases v) simp_all

lemma conforms_EnumProperty: "conforms (EnumProperty xs) v \<longleftrightarrow> (\<exists>s. v = JStr s \<and> s \<in> set xs)"
  by (cases v) simp_all

text \<open>
  The required list is not the one the specification words, in either case: it has both
  \<open>response\<close> and \<open>compensate_input\<close>. An invoke body with \<open>transaction_id\<close>, \<open>step_id\<close>,
  \<open>response\<close> and \<open>action\<close> has every field the wording asks for and does not satisfy the
  schema.
\<close>

theorem required_fields_counterexample:
  "set (required requestBody_schema) \<noteq> set (claimed_required ''invoke'')
   \<and> set (required requestBody_schema) \<noteq> set (claimed_required ''compensate'')
   \<and> list_all (has_field [(''transaction_id'', JStr ''tx_1''), (''step_id'', JStr ''step_1''),
                            (''response'', JObj []), (''action'', JStr ''invoke'')])
        (claimed_required ''invoke'')
   \<and> \<not> satisfies requestBody_schema
         [(''transaction_id'', JStr ''tx_1''), (''step_id'', JStr ''step_1''),
          (''response'', JObj []), (''action'', JStr ''invoke'')]"
proof -
  have "''compensate_input'' \<in> set (required requestBody_schema)"
    and "''compensate_input'' \<notin> set (claimed_required ''invoke'')"
    and "''response'' \<in> set (required requestBody_schema)"
    and "''response'' \<notin> set (claimed_required ''compensate'')"
    by (simp_all add: requestBody_schema_def claimed_required_def)
  then have "set (required requestBody_schema) \<noteq> set (claimed_required ''invoke'')"
    and "set (required requestBody_schema) \<noteq> set (claimed_required ''compensate'')"
    by metis+
  then show ?thesis
    by (simp add: requestBody_schema_def claimed_required_def satisfies_def has_field_def)
qed

text \<open>
  C1 (amended). The required request body fields are exactly \<open>transaction_id\<close>,
  \<open>step_id\<close>, \<open>response\<close>, \<open>compensate_input\<close> and \<open>action\<close>, all five whatever the action;
  \<open>action\<close> is an enum of \<open>invoke\<close> and \<open>compensate\<close>. A body satisfies the schema exactly
  when it has \<open>response\<close> and \<open>compensate_input\<close>, its \<open>transaction_id\<close> and \<open>step_id\<close> are
  strings and its \<open>action\<close> is \<open>invoke\<close> or \<open>compensate\<close>.
\<close>

theorem requestBody_required_fields:
  "set (required requestBody_schema)
     = {''transaction_id'', ''step_id'', ''response'', ''compensate_input'', ''action''}
   \<and> map_of (properties requestBody_schema) ''action'' = Some (EnumProperty [''invoke'', ''compensate''])
   \<and> (satisfies requestBody_schema body \<longleftrightarrow>
        (has_field body ''transaction_id'' \<and> has_field body ''step_id''
         \<and> has_field body ''response'' \<and> has_field body ''compensate_input''
         \<and> (\<exists>t. map_of body ''transaction_id'' = Some (JStr t))
         \<and> (\<exists>i. map_of body ''step_id'' = Some (JStr i))
         \<and> (map_of body ''action'' = Some (JStr ''invoke'')
              \<or> map_of body ''action'' = Some (JStr ''compensate''))))"
proof -
  have "satisfies requestBody_schema body \<longleftrightarrow>
        (has_field body ''transaction_id'' \<and> has_field body ''step_id''
         \<and> has_field body ''response'' \<and> has_field body ''compensate_input''
         \<and> (\<exists>t. map_of body ''transaction_id'' = Some (JStr t))
         \<and> (\<exists>i. map_of body ''step_id'' = Some (JStr i))
         \<and> (map_of body ''action'' = Some (JStr ''invoke'')
              \<or> map_of body ''action'' = Some (JStr ''compensate'')))"
    unfolding satisfies_def requestBody_schema_def
    by (auto simp: has_field_map_of conforms_StringProperty conforms_EnumProperty
          split: option.splits)
  then show ?thesis
    by (simp add: requestBody_schema_def)
qed


text \<open>
  The endpoint declares a 401 response, which is not among the five the specification
  lists.
\<close>

theorem failure_responses_counterexample:
  "''401'' \<in> set (map fst responses) \<and> ''401'' \<notin> set claimed_failure_responses
   \<and> set (map fst responses) \<noteq> set claimed_failure_responses"
proof -
  have "''401'' \<in> set (map fst responses)" and "''401'' \<notin> set claimed_failure_responses"
    by (simp_all add: responses_def claimed_failure_responses_def)
  then show ?thesis by metis
qed

text \<open>
  C2 (amended). The endpoint's failure responses are exactly 400 (\<open>400_error\<close>), 401
  (\<open>unauthorized\<close>), 404 (\<open>not_found_error\<close>), 409 (\<open>invalid_state_error\<close>), 422
  (\<open>invalid_request_error\<close>) and 500 (\<open>500_error\<close>). On the handler as the specification
  describes it, a success signal for an unknown transaction or step is answered 404 and
  one for a step already terminal is answered 409, either leaving the state as it was;
  so an accepted signal triggers the progression once, and its re-delivery is answered
  409 and changes nothing.
\<close>

theorem failure_responses:
  "map fst responses = [''400'', ''401'', ''404'', ''409'', ''422'', ''500'']
   \<and> map_of responses ''400'' = Some ''400_error''
   \<and> map_of responses ''401'' = Some ''unauthorized''
   \<and> map_of responses ''404'' = Some ''not_found_error''
   \<and> map_of responses ''409'' = Some ''invalid_state_error''
   \<and> map_of responses ''422'' = Some ''invalid_request_error''
   \<and> map_of responses ''500'' = Some ''500_error''
   \<and> (step_log st (t, i) = None \<longrightarrow> signal_step_success t i r st = (Rejected ''404'', st))
   \<and> (\<forall>status r0. step_log st (t, i) = Some (status, r0) \<longrightarrow> terminal status \<longrightarrow>
         signal_step_success t i r st = (Rejected ''409'', st))
   \<and> (fst (signal_step_success t i r st) = Accepted \<longrightarrow>
         signal_step_success t i r' (snd (signal_step_success t i r st))
           = (Rejected ''409'', snd (signal_step_success t i r st))
         \<and> progressed (snd (signal_step_success t i r st)) = progressed st @ [(t, i)])"
  by (auto simp: responses_def signal_step_success_def terminal_def split: option.splits)

theorem failure_responses_witness:
  "fst (signal_step_success ''tx_1'' ''step_1'' (JStr ''ok'') demo_execution) = Accepted
   \<and> fst (signal_step_success ''tx_1'' ''step_1'' (JStr ''ok'')
           (snd (signal_step_success ''tx_1'' ''step_1'' (JStr ''ok'') demo_execution)))
       = Rejected ''409''
   \<and> progressed (snd (signal_step_success ''tx_1'' ''step_1'' (JStr ''ok'')
           (snd (signal_step_success ''tx_1'' ''step_1'' (JStr ''ok'') demo_execution))))
       = [(''tx_1'', ''step_1'')]"
proof -
  have first: "fst (signal_step_success ''tx_1'' ''step_1'' (JStr ''ok'') demo_execution) = Accepted"
    by (simp add: signal_step_success_def demo_execution_def terminal_def)
  have none: "progressed demo_execution = []"
    by (simp add: demo_execution_def)
  from failure_responses
    [of demo_execution "''tx_1''" "''step_1''" "JStr ''ok''" "JStr ''ok''"]
  show ?thesis using first none by simp
qed

























lemma compensate_calls_append:
  "compensate_calls (xs @ ys) = compensate_calls xs @ compensate_calls ys"
  by (induction xs rule: compensate_calls.induct) simp_all

lemma successes_append: "successes (xs @ ys) = successes xs @ successes ys"
  by (induction xs rule: successes.induct) simp_all

lemma invoked_append: "invoked (xs @ ys) = invoked xs @ invoked ys"
  by (induction xs rule: invoked.induct) simp_all

lemma invoke_with_retries_result:
  "fst (invoke_with_retries s k r) = list_ex (invoke s) [k..<Suc (k + r)]"
proof (induction r arbitrary: k)
  case 0
  then show ?case by simp
next
  case (Suc r)
  have "[k..<Suc (k + Suc r)] = k # [Suc k..<Suc (Suc k + r)]"
    by (simp add: upt_conv_Cons)
  then show ?case using Suc.IH [of "Suc k"]
    by (simp add: case_prod_beta del: upt_Suc)
qed

lemma invoke_with_retries_exhausted:
  "\<not> list_ex (invoke s) [k..<Suc (k + r)] \<Longrightarrow>
     snd (invoke_with_retries s k r) = map (InvokeCalled (step_name s)) [k..<Suc (k + r)]"
proof (induction r arbitrary: k)
  case 0
  then show ?case by simp
next
  case (Suc r)
  have split: "[k..<Suc (k + Suc r)] = k # [Suc k..<Suc (Suc k + r)]"
    by (simp add: upt_conv_Cons)
  from Suc.prems have "\<not> invoke s k" and "\<not> list_ex (invoke s) [Suc k..<Suc (Suc k + r)]"
    unfolding split by simp_all
  then show ?case using Suc.IH [of "Suc k"] unfolding split
    by (simp add: case_prod_beta)
qed

lemma compensate_calls_attempts: "compensate_calls (map (InvokeCalled n) ks) = []"
  by (induction ks) simp_all

lemma invoke_with_retries_succeeds:
  "fst (invoke_with_retries s 0 (max_retries s)) = succeeds s"
  by (simp add: invoke_with_retries_result succeeds_def del: upt_Suc)

lemma invoke_with_retries_events:
  "compensate_calls (snd (invoke_with_retries s k r)) = []
   \<and> successes (snd (invoke_with_retries s k r)) = []
   \<and> set (invoked (snd (invoke_with_retries s k r))) = {step_name s}"
  by (induction r arbitrary: k) (simp_all add: case_prod_beta)

lemma sweep_events:
  "compensate_calls (sweep steps ns) = filter (has_handler steps) ns
   \<and> invoked (sweep steps ns) = [] \<and> successes (sweep steps ns) = []"
proof (induction ns)
  case Nil
  then show ?case by simp
next
  case (Cons n ns)
  have "compensate_calls (compensate_step (find_step steps n) n)
          = (if has_handler steps n then [n] else [])
        \<and> invoked (compensate_step (find_step steps n) n) = []
        \<and> successes (compensate_step (find_step steps n) n) = []"
    by (cases "find_step steps n")
       (auto simp: has_handler_def split: compensation.splits)
  then show ?case using Cons.IH
    by (simp add: compensate_calls_append invoked_append successes_append)
qed

lemma find_step_name: "find_step steps n = Some s \<Longrightarrow> step_name s = n"
  by (auto simp: find_step_def find_Some_iff)

lemma halted: "tx e \<noteq> INVOKING \<Longrightarrow> foldl (on_signal steps) e sgs = e"
  by (induction sgs) (simp_all add: on_signal_def)

lemma run_transaction_snoc:
  "run_transaction steps (sgs @ sg # rest)
     = foldl (on_signal steps) (on_signal steps (run_transaction steps sgs) sg) rest"
  by (simp add: run_transaction_def)


lemma invariant_start: "invoking_invariant steps start"
  by (simp add: invoking_invariant_def start_def)

lemma settle_invoking: "tx (settle steps e) = INVOKING \<Longrightarrow> settle steps e = e"
  by (simp add: settle_def split: if_splits)

lemma enter_compensating_tx: "tx (enter_compensating steps e) \<noteq> INVOKING"
  by (simp add: enter_compensating_def Let_def)

lemma ready_facts:
  assumes "ready steps e n" and "find_step steps n = Some s"
  shows "statuses e n = Pending" and "\<forall>x\<in>set (depends_on s). statuses e x = Success"
  using assms by (simp_all add: ready_def list_all_iff)

lemma invariant_after_invoke:
  assumes inv: "invoking_invariant steps e"
    and rdy: "ready steps e n" and s: "find_step steps n = Some s"
    and ev: "ev = snd (invoke_with_retries s 0 (max_retries s))"
  shows "invoking_invariant steps
           (e \<lparr> statuses := (statuses e)(n := Success), completed := n # completed e,
                events := events e @ ev @ [InvokeSucceeded n] \<rparr>)"
    and "invoking_invariant steps
           (e \<lparr> statuses := (statuses e)(n := Failed),
                events := events e @ ev @ [InvokeFailed n] \<rparr>)"
proof -
  note pend = ready_facts(1) [OF rdy s] and deps = ready_facts(2) [OF rdy s]
  note name = find_step_name [OF s]
  note evs = invoke_with_retries_events [of s 0 "max_retries s", folded ev]
  have cc: "compensate_calls ev = []" and su: "successes ev = []"
    and iv: "set (invoked ev) = {n}"
    using evs name by simp_all
  have notdone: "n \<notin> set (completed e)"
    using inv pend by (auto simp: invoking_invariant_def)
  have old: "statuses e d \<noteq> Pending \<and> d \<noteq> n
             \<and> (\<forall>t. find_step steps d = Some t \<longrightarrow> (\<forall>x\<in>set (depends_on t). statuses e x = Success))"
    if "d \<in> set (invoked (events e))" for d
    using inv that pend by (auto simp: invoking_invariant_def)
  have keep: "x \<noteq> n" if "statuses e x = Success" for x
    using that pend by auto
  have selfdep: "n \<notin> set (depends_on s)"
    using deps pend by auto
  show "invoking_invariant steps
           (e \<lparr> statuses := (statuses e)(n := Failed),
                events := events e @ ev @ [InvokeFailed n] \<rparr>)"
    unfolding invoking_invariant_def
  proof (intro conjI ballI allI impI)
    show "compensate_calls (events (e \<lparr> statuses := (statuses e)(n := Failed),
                events := events e @ ev @ [InvokeFailed n] \<rparr>)) = []"
      using inv cc by (simp add: invoking_invariant_def compensate_calls_append)
  qed (use inv notdone old keep deps selfdep s su iv in
        \<open>auto simp: invoking_invariant_def successes_append invoked_append\<close>)
  show "invoking_invariant steps
           (e \<lparr> statuses := (statuses e)(n := Success), completed := n # completed e,
                events := events e @ ev @ [InvokeSucceeded n] \<rparr>)"
    unfolding invoking_invariant_def
  proof (intro conjI ballI allI impI)
    show "compensate_calls (events (e \<lparr> statuses := (statuses e)(n := Success),
                completed := n # completed e,
                events := events e @ ev @ [InvokeSucceeded n] \<rparr>)) = []"
      using inv cc by (simp add: invoking_invariant_def compensate_calls_append)
  qed (use inv notdone old keep deps selfdep s su iv in
        \<open>auto simp: invoking_invariant_def successes_append invoked_append\<close>)
qed


lemma invariant_on_signal:
  assumes inv: "invoking_invariant steps e" and still: "tx (on_signal steps e sg) = INVOKING"
  shows "invoking_invariant steps (on_signal steps e sg)"
proof (cases "tx e = INVOKING")
  case False
  then show ?thesis using inv by (simp add: on_signal_def)
next
  case True
  show ?thesis
  proof (cases sg)
    case Abort
    then show ?thesis
      using still True enter_compensating_tx [of steps e] by (simp add: on_signal_def)
  next
    case (Run n)
    show ?thesis
    proof (cases "ready steps e n")
      case False
      then show ?thesis using inv True Run by (simp add: on_signal_def)
    next
      case rdy: True
      then obtain s where s: "find_step steps n = Some s"
        by (auto simp: ready_def split: option.splits)
      let ?ev = "snd (invoke_with_retries s 0 (max_retries s))"
      let ?ok = "e \<lparr> statuses := (statuses e)(n := Success), completed := n # completed e,
                      events := events e @ ?ev @ [InvokeSucceeded n] \<rparr>"
      let ?ko = "e \<lparr> statuses := (statuses e)(n := Failed),
                      events := events e @ ?ev @ [InvokeFailed n] \<rparr>"
      have sig: "on_signal steps e sg = run_step steps e n s"
        using True Run rdy s by (simp add: on_signal_def)
      note after = invariant_after_invoke [OF inv rdy s refl]
      show ?thesis
      proof (cases "fst (invoke_with_retries s 0 (max_retries s))")
        case ok: True
        then have run: "run_step steps e n s = settle steps ?ok"
          by (simp add: run_step_def case_prod_beta)
        then have "settle steps ?ok = ?ok"
          using still sig by (simp add: settle_invoking)
        then show ?thesis using sig run after(1) by simp
      next
        case ko: False
        show ?thesis
        proof (cases "is_required s")
          case True
          then have "run_step steps e n s = enter_compensating steps ?ko"
            using ko by (simp add: run_step_def case_prod_beta Let_def)
          then show ?thesis
            using still sig enter_compensating_tx [of steps ?ko] by simp
        next
          case False
          then have run: "run_step steps e n s = settle steps ?ko"
            using ko by (simp add: run_step_def case_prod_beta Let_def)
          then have "settle steps ?ko = ?ko"
            using still sig by (simp add: settle_invoking)
          then show ?thesis using sig run after(2) by simp
        qed
      qed
    qed
  qed
qed

lemma invariant_run:
  "tx (run_transaction steps sgs) = INVOKING \<Longrightarrow>
     invoking_invariant steps (run_transaction steps sgs)"
proof (induction sgs rule: rev_induct)
  case Nil
  then show ?case by (simp add: run_transaction_def invariant_start)
next
  case (snoc sg sgs)
  have step: "run_transaction steps (sgs @ [sg]) = on_signal steps (run_transaction steps sgs) sg"
    by (simp add: run_transaction_def)
  have "tx (run_transaction steps sgs) = INVOKING"
  proof (rule ccontr)
    assume "tx (run_transaction steps sgs) \<noteq> INVOKING"
    then have "on_signal steps (run_transaction steps sgs) sg = run_transaction steps sgs"
      by (simp add: on_signal_def)
    then show False
      using snoc.prems step \<open>tx (run_transaction steps sgs) \<noteq> INVOKING\<close> by simp
  qed
  then have "invoking_invariant steps (run_transaction steps sgs)"
    by (rule snoc.IH)
  then show ?case
    unfolding step using snoc.prems [unfolded step] by (rule invariant_on_signal)
qed

lemma count_list_distinct: "distinct xs \<Longrightarrow> x \<in> set xs \<Longrightarrow> count_list xs x = 1"
  by (induction xs) auto

text \<open>
  C3 (amended). Let the engine be \<open>INVOKING\<close> after some signals, and let it then be the
  turn of a required step \<open>n\<close> that is ready and whose invoke fails at every attempt.
  Then, whatever signals follow, the events are those so far, the attempts of \<open>n\<close>, its
  failure, the entry into \<open>COMPENSATING\<close> and what comes after, and the transaction ends
  \<open>REVERTED\<close> or \<open>FAILED\<close>. No compensate call is made before \<open>COMPENSATING\<close> is entered and
  no step is invoked after. The compensate calls made after are those of the steps
  whose success was recorded and which have a compensate handler, in the reverse of the
  order their successes were recorded in, each exactly once, whatever the outcomes of
  the compensations. A step with no recorded success gets no compensate call: \<open>n\<close>
  itself has none, and a step that depends on \<open>n\<close> is never invoked and never
  compensated.
\<close>

theorem compensation_reverse_completion_order:
  assumes invoking: "tx (run_transaction steps schedule) = INVOKING"
    and rdy: "ready steps (run_transaction steps schedule) n"
    and s: "find_step steps n = Some s"
    and req: "is_required s"
    and fails: "\<not> succeeds s"
  shows "\<exists>after.
           events (run_transaction steps (schedule @ Run n # rest))
             = events (run_transaction steps schedule)
                 @ map (InvokeCalled n) [0..<Suc (max_retries s)]
                 @ InvokeFailed n # Entered COMPENSATING # after
         \<and> (tx (run_transaction steps (schedule @ Run n # rest)) = REVERTED
              \<or> tx (run_transaction steps (schedule @ Run n # rest)) = FAILED)
         \<and> compensate_calls (events (run_transaction steps schedule)) = []
         \<and> invoked after = []
         \<and> compensate_calls after
             = filter (has_handler steps)
                 (rev (successes (events (run_transaction steps schedule))))
         \<and> (\<forall>m\<in>set (successes (events (run_transaction steps schedule))).
               has_handler steps m \<longrightarrow> count_list (compensate_calls after) m = 1)
         \<and> (\<forall>m. m \<notin> set (successes (events (run_transaction steps schedule))) \<longrightarrow>
               m \<notin> set (compensate_calls after))
         \<and> n \<notin> set (successes (events (run_transaction steps schedule)))
         \<and> (\<forall>d t. find_step steps d = Some t \<longrightarrow> n \<in> set (depends_on t) \<longrightarrow>
               d \<notin> set (invoked (events (run_transaction steps (schedule @ Run n # rest))))
               \<and> d \<notin> set (compensate_calls after))"
proof -
  let ?e = "run_transaction steps schedule"
  let ?ev = "snd (invoke_with_retries s 0 (max_retries s))"
  let ?ko = "?e \<lparr> statuses := (statuses ?e)(n := Failed),
                   events := events ?e @ ?ev @ [InvokeFailed n] \<rparr>"
  let ?final = "if list_ex is_unavailable (sweep steps (completed ?e)) then FAILED else REVERTED"
  let ?after = "sweep steps (completed ?e) @ [Entered ?final]"
  let ?end = "run_transaction steps (schedule @ Run n # rest)"
  have inv: "invoking_invariant steps ?e"
    by (rule invariant_run [OF invoking])
  note pend = ready_facts(1) [OF rdy s] and deps = ready_facts(2) [OF rdy s]
  note name = find_step_name [OF s]
  have ko: "\<not> fst (invoke_with_retries s 0 (max_retries s))"
    using fails by (simp add: invoke_with_retries_succeeds)
  have sig: "on_signal steps ?e (Run n) = enter_compensating steps ?ko"
    using invoking rdy s ko req by (simp add: on_signal_def run_step_def case_prod_beta Let_def)
  have "?end = foldl (on_signal steps) (enter_compensating steps ?ko) rest"
    unfolding run_transaction_snoc sig ..
  then have final: "?end = enter_compensating steps ?ko"
    using halted [OF enter_compensating_tx] by simp
  have attempts: "?ev = map (InvokeCalled n) [0..<Suc (max_retries s)]"
    using invoke_with_retries_exhausted [of s 0 "max_retries s"] fails name
    by (simp add: succeeds_def del: upt_Suc)
  have events: "events ?end = events ?e @ map (InvokeCalled n) [0..<Suc (max_retries s)]
                  @ InvokeFailed n # Entered COMPENSATING # ?after"
    unfolding final attempts [symmetric] by (simp add: enter_compensating_def Let_def)
  have status: "tx ?end = REVERTED \<or> tx ?end = FAILED"
    unfolding final by (simp add: enter_compensating_def Let_def)
  have quiet: "compensate_calls (events ?e) = []"
    and order: "completed ?e = rev (successes (events ?e))"
    and dist: "distinct (completed ?e)"
    and fin: "\<forall>m\<in>set (completed ?e). statuses ?e m = Success \<and> m \<in> set (invoked (events ?e))"
    and ran: "\<forall>d\<in>set (invoked (events ?e)). statuses ?e d \<noteq> Pending
           \<and> (\<forall>t. find_step steps d = Some t \<longrightarrow>
                 (\<forall>x\<in>set (depends_on t). statuses ?e x = Success))"
    using inv unfolding invoking_invariant_def by blast+
  have none: "invoked ?after = []"
    by (simp add: invoked_append sweep_events)
  have calls: "compensate_calls ?after
      = filter (has_handler steps) (rev (successes (events ?e)))"
    by (simp add: compensate_calls_append sweep_events order)
  have once: "count_list (compensate_calls ?after) m = 1"
    if "m \<in> set (successes (events ?e))" "has_handler steps m" for m
  proof -
    have "distinct (compensate_calls ?after)"
      unfolding calls using dist order by simp
    moreover have "m \<in> set (compensate_calls ?after)"
      unfolding calls using that by simp
    ultimately show ?thesis by (rule count_list_distinct)
  qed
  have never: "m \<notin> set (compensate_calls ?after)"
    if "m \<notin> set (successes (events ?e))" for m
    unfolding calls using that by simp
  have self: "n \<notin> set (successes (events ?e))"
    using fin pend order by auto
  have downstream: "d \<notin> set (invoked (events ?end)) \<and> d \<notin> set (compensate_calls ?after)"
    if t: "find_step steps d = Some t" and dep: "n \<in> set (depends_on t)" for d t
  proof -
    have before: "d \<notin> set (invoked (events ?e))"
    proof
      assume "d \<in> set (invoked (events ?e))"
      then have "statuses ?e n = Success" using ran t dep by blast
      then show False using pend by simp
    qed
    have "d \<noteq> n"
    proof
      assume "d = n"
      then have "t = s" using t s by simp
      then have "statuses ?e n = Success" using deps dep by blast
      then show False using pend by simp
    qed
    moreover have "set (invoked ?ev) = {n}"
      using invoke_with_retries_events [of s 0 "max_retries s"] name by simp
    ultimately have "d \<notin> set (invoked (events ?end))"
      unfolding events attempts [symmetric] using before none by (simp add: invoked_append)
    moreover have "d \<notin> set (successes (events ?e))"
      using before fin order by auto
    ultimately show ?thesis using never by simp
  qed
  show ?thesis
  proof (rule exI [of _ ?after], intro conjI)
    show "\<forall>m\<in>set (successes (events ?e)).
            has_handler steps m \<longrightarrow> count_list (compensate_calls ?after) m = 1"
      using once by blast
    show "\<forall>m. m \<notin> set (successes (events ?e)) \<longrightarrow> m \<notin> set (compensate_calls ?after)"
      using never by blast
    show "\<forall>d t. find_step steps d = Some t \<longrightarrow> n \<in> set (depends_on t) \<longrightarrow>
            d \<notin> set (invoked (events ?end)) \<and> d \<notin> set (compensate_calls ?after)"
      using downstream by blast
  qed (rule events status quiet none calls self)+
qed


text \<open>
  Not every previously successful step receives a compensate call: in the example,
  \<open>emit-event\<close> has succeeded when \<open>charge\<close> fails, and it gets none, being
  non-compensable; the compensate calls are those of \<open>reserve\<close> and \<open>pack\<close>.
\<close>

theorem compensation_every_step_counterexample:
  "''emit-event''
     \<in> set (successes (events (run_transaction demo_steps (demo_schedule @ [Run ''charge'']))))
   \<and> count_list
        (compensate_calls (events (run_transaction demo_steps (demo_schedule @ [Run ''charge'']))))
        ''emit-event'' = 0
   \<and> compensate_calls (events (run_transaction demo_steps (demo_schedule @ [Run ''charge''])))
       = [''reserve'', ''pack'']"
  by code_simp


theorem compensation_reverse_completion_order_witness:
  "tx (run_transaction demo_steps demo_schedule) = INVOKING
   \<and> successes (events (run_transaction demo_steps demo_schedule))
       = [''pack'', ''reserve'', ''emit-event'']
   \<and> compensate_calls
        (events (run_transaction demo_steps (demo_schedule @ Run ''charge'' # [Run ''ship''])))
       = [''reserve'', ''pack'']
   \<and> ''ship''
       \<notin> set (invoked
             (events (run_transaction demo_steps (demo_schedule @ Run ''charge'' # [Run ''ship'']))))"
proof -
  let ?e = "run_transaction demo_steps demo_schedule"
  let ?end = "run_transaction demo_steps (demo_schedule @ Run ''charge'' # [Run ''ship''])"
  have invoking: "tx ?e = INVOKING"
    by code_simp
  have rdy: "ready demo_steps ?e ''charge''"
    by code_simp
  have s: "find_step demo_steps ''charge'' = Some demo_charge"
    by (simp add: find_step_def demo_steps_def demo_charge_def)
  have req: "is_required demo_charge"
    by (simp add: demo_charge_def)
  have fails: "\<not> succeeds demo_charge"
    by (simp add: demo_charge_def succeeds_def list_ex_iff)
  have ship: "find_step demo_steps ''ship'' = Some demo_ship"
    by (simp add: find_step_def demo_steps_def demo_charge_def demo_ship_def)
  have dep: "''charge'' \<in> set (depends_on demo_ship)"
    by (simp add: demo_ship_def)
  have succ: "successes (events ?e) = [''pack'', ''reserve'', ''emit-event'']"
    by code_simp
  have handlers: "filter (has_handler demo_steps) (rev [''pack'', ''reserve'', ''emit-event''])
      = [''reserve'', ''pack'']"
    by code_simp
  from compensation_reverse_completion_order [OF invoking rdy s req fails, of "[Run ''ship'']"]
  obtain after where
    ev: "events ?end = events ?e @ map (InvokeCalled ''charge'') [0..<Suc (max_retries demo_charge)]
           @ InvokeFailed ''charge'' # Entered COMPENSATING # after"
    and quiet: "compensate_calls (events ?e) = []"
    and calls: "compensate_calls after
           = filter (has_handler demo_steps) (rev (successes (events ?e)))"
    and down: "\<forall>d t. find_step demo_steps d = Some t \<longrightarrow> ''charge'' \<in> set (depends_on t) \<longrightarrow>
           d \<notin> set (invoked (events ?end)) \<and> d \<notin> set (compensate_calls after)"
    by blast
  have "compensate_calls (events ?end) = [''reserve'', ''pack'']"
    unfolding ev using quiet calls succ handlers
    by (simp add: compensate_calls_append compensate_calls_attempts del: upt_Suc)
  moreover have "''ship'' \<notin> set (invoked (events ?end))"
    using down ship dep by blast
  ultimately show ?thesis using invoking succ by simp
qed

end
